theory Spec2Isabelle
  imports Main "HOL-Library.Sublist"
begin

section \<open>Errors, nodes and calls\<close>

text \<open>
  A Go \<^verbatim>\<open>error\<close> built by \<^verbatim>\<open>fmt.Errorf\<close>: either a plain message, or a message
  prefix in front of a wrapped error (the \<^verbatim>\<open>%w\<close> verb, which is the last verb of
  every format string of the packages modelled here).
\<close>

datatype error = Errorf string | Wrapf string error

fun Error :: "error \<Rightarrow> string" where
  "Error (Errorf s) = s"
| "Error (Wrapf s e) = s @ Error e"

fun Unwrap :: "error \<Rightarrow> error option" where
  "Unwrap (Errorf s) = None"
| "Unwrap (Wrapf s e) = Some e"

text \<open>
  The fields of \<^verbatim>\<open>corev1.Node\<close> that the watcher and the plugins read. A nil
  \<^verbatim>\<open>DeletionTimestamp\<close> is \<open>None\<close>; the time itself is a number of seconds.
\<close>

record Node =
  Name :: string
  DeletionTimestamp :: "nat option"
  Finalizers :: "string list"
  Annotations :: "string \<rightharpoonup> string"
  Labels :: "string \<rightharpoonup> string"

text \<open>Reading a Go \<^verbatim>\<open>map[string]string\<close>: a missing key reads as the empty string.\<close>

definition index_map :: "(string \<rightharpoonup> string) \<Rightarrow> string \<Rightarrow> string" where
  "index_map m k = (case m k of None \<Rightarrow> [] | Some v \<Rightarrow> v)"

text \<open>
  The body of the merge patch built by the watcher:
  \<^verbatim>\<open>{"metadata": {"finalizers": newFinalizers}}\<close>.
\<close>

datatype patch = MergePatch_finalizers "string list"

text \<open>
  What the code does to the outside, in the order it does it: a Get or a Patch on the
  node API, or the \<^verbatim>\<open>Cleanup\<close> of the plugin stored under a name.
\<close>

datatype call = ApiGet string | ApiPatch string patch | PluginCleanup string

definition is_cleanup :: "call \<Rightarrow> bool" where
  "is_cleanup c = (case c of PluginCleanup name \<Rightarrow> True | _ \<Rightarrow> False)"

definition FinalizerName :: string where
  "FinalizerName = ''infra.894.io/node-cleanup''"

definition SkipCleanupAnnotation :: string where
  "SkipCleanupAnnotation = ''infra.894.io/skip-cleanup''"

definition DefaultWorkQueueSize :: nat where
  "DefaultWorkQueueSize = 100"

section \<open>The plugin registry (pkg/plugins/plugin.go)\<close>

text \<open>
  The \<^verbatim>\<open>Plugin\<close> interface. \<open>'w\<close> is the state of everything outside the process
  (the cluster, the storage system): \<^verbatim>\<open>Cleanup\<close> may change it and may fail.
\<close>

datatype 'w Plugin = Plugin
  (PluginName: string)
  (ShouldRun: "Node \<Rightarrow> bool")
  (Cleanup: "Node \<Rightarrow> 'w \<Rightarrow> error option \<times> 'w")

record 'w Registry =
  plugins :: "string \<rightharpoonup> 'w Plugin"
  enabled :: "string \<rightharpoonup> bool"
  pluginOrder :: "string list"

definition NewRegistry :: "'w Registry" where
  "NewRegistry = \<lparr>plugins = Map.empty, enabled = Map.empty, pluginOrder = []\<rparr>"

definition Register :: "'w Registry \<Rightarrow> 'w Plugin \<Rightarrow> 'w Registry" where
  "Register r plugin = r\<lparr>plugins := (plugins r)(PluginName plugin \<mapsto> plugin)\<rparr>"

definition Enable :: "'w Registry \<Rightarrow> string \<Rightarrow> error + 'w Registry" where
  "Enable r name =
     (case plugins r name of
        None \<Rightarrow> Inl (Errorf (''plugin '' @ name @ '' not found''))
      | Some _ \<Rightarrow>
          Inr (r\<lparr>enabled := (enabled r)(name \<mapsto> True),
                 pluginOrder := pluginOrder r @ [name]\<rparr>))"

definition Disable :: "'w Registry \<Rightarrow> string \<Rightarrow> 'w Registry" where
  "Disable r name = r\<lparr>enabled := (enabled r)(name \<mapsto> False)\<rparr>"

text \<open>Reading \<^verbatim>\<open>r.enabled[name]\<close>: a missing key reads as false.\<close>

definition is_enabled :: "'w Registry \<Rightarrow> string \<Rightarrow> bool" where
  "is_enabled r name = (case enabled r name of None \<Rightarrow> False | Some b \<Rightarrow> b)"

text \<open>
  The loop of \<^verbatim>\<open>RunAll\<close> over \<^verbatim>\<open>r.pluginOrder\<close>, on the names still to visit. The
  result is the list of calls made, the error returned (\<open>None\<close> is nil) and the outside
  state afterwards. The loop does not read \<^verbatim>\<open>r.enabled\<close>.
\<close>

fun RunAll_loop ::
  "'w Registry \<Rightarrow> Node \<Rightarrow> string list \<Rightarrow> 'w \<Rightarrow> call list \<times> error option \<times> 'w" where
  "RunAll_loop r node [] w = ([], None, w)"
| "RunAll_loop r node (name # rest) w =
     (case plugins r name of
        None \<Rightarrow> RunAll_loop r node rest w
      | Some plugin \<Rightarrow>
          if \<not> ShouldRun plugin node then RunAll_loop r node rest w
          else
            (case Cleanup plugin node w of
               (Some err, w') \<Rightarrow>
                 ([PluginCleanup name],
                  Some (Wrapf (''plugin '' @ name @ '' failed: '') err), w')
             | (None, w') \<Rightarrow>
                 (case RunAll_loop r node rest w' of
                    (cs, e, w'') \<Rightarrow> (PluginCleanup name # cs, e, w''))))"

definition RunAll :: "'w Registry \<Rightarrow> Node \<Rightarrow> 'w \<Rightarrow> call list \<times> error option \<times> 'w" where
  "RunAll r node w = RunAll_loop r node (pluginOrder r) w"

text \<open>
  The file also holds the earlier \<^verbatim>\<open>RunAll\<close>, of the registry without
  \<^verbatim>\<open>pluginOrder\<close>: it ranges over the map \<^verbatim>\<open>r.plugins\<close> and skips a name whose
  \<^verbatim>\<open>r.enabled\<close> entry is not true. Go leaves the order of that range open, so the
  keys come as a parameter, in the order visited.
\<close>

fun RunAll_range_loop ::
  "'w Registry \<Rightarrow> Node \<Rightarrow> string list \<Rightarrow> 'w \<Rightarrow> call list \<times> error option \<times> 'w" where
  "RunAll_range_loop r node [] w = ([], None, w)"
| "RunAll_range_loop r node (name # rest) w =
     (case plugins r name of
        None \<Rightarrow> RunAll_range_loop r node rest w
      | Some plugin \<Rightarrow>
          if \<not> is_enabled r name then RunAll_range_loop r node rest w
          else if \<not> ShouldRun plugin node then RunAll_range_loop r node rest w
          else
            (case Cleanup plugin node w of
               (Some err, w') \<Rightarrow>
                 ([PluginCleanup name],
                  Some (Wrapf (''plugin '' @ name @ '' failed: '') err), w')
             | (None, w') \<Rightarrow>
                 (case RunAll_range_loop r node rest w' of
                    (cs, e, w'') \<Rightarrow> (PluginCleanup name # cs, e, w''))))"

text \<open>
  Start-up as \<^verbatim>\<open>main\<close> does it: register every plugin, then enable the configured
  names one by one; a name that \<^verbatim>\<open>Enable\<close> refuses is logged and skipped.
  \<open>Enable_all\<close> is a sequence of \<^verbatim>\<open>Enable\<close> calls of which none is refused.
\<close>

definition Register_all :: "'w Registry \<Rightarrow> 'w Plugin list \<Rightarrow> 'w Registry" where
  "Register_all r ps = foldl Register r ps"

fun Enable_configured :: "'w Registry \<Rightarrow> string list \<Rightarrow> 'w Registry" where
  "Enable_configured r [] = r"
| "Enable_configured r (pluginName # rest) =
     (case Enable r pluginName of
        Inl err \<Rightarrow> Enable_configured r rest
      | Inr r' \<Rightarrow> Enable_configured r' rest)"

fun Enable_all :: "'w Registry \<Rightarrow> string list \<Rightarrow> error + 'w Registry" where
  "Enable_all r [] = Inr r"
| "Enable_all r (name # names) =
     (case Enable r name of Inl e \<Rightarrow> Inl e | Inr r' \<Rightarrow> Enable_all r' names)"

section \<open>The deletion watcher (pkg/watcher/watcher.go)\<close>

text \<open>
  The two operations of \<^verbatim>\<open>kubernetes.Interface\<close> that the watcher uses on nodes. They
  belong to the cluster, so they are parameters: each takes the outside state and returns
  the answer and the new outside state.
\<close>

record 'w Client =
  Get :: "string \<Rightarrow> 'w \<Rightarrow> (error + Node) \<times> 'w"
  Patch :: "string \<Rightarrow> patch \<Rightarrow> 'w \<Rightarrow> (error + Node) \<times> 'w"

text \<open>
  The struct \<^verbatim>\<open>Watcher\<close>: \<^verbatim>\<open>workqueue\<close> is the buffered channel (head is received
  next), \<^verbatim>\<open>processing\<close> the \<^verbatim>\<open>sync.Map\<close>, of which only the keys matter. The
  informer and the context hold no state of their own here: what they do to the watcher
  are the events of the running watcher below.
\<close>

record 'w Watcher =
  client :: "'w Client"
  workqueue :: "string list"
  pluginRegistry :: "'w Registry"
  processing :: "string set"

text \<open>
  The goroutines started with \<^verbatim>\<open>go func()\<close>: the background marker add of
  \<^verbatim>\<open>ensureFinalizer\<close> and the delayed retry of \<^verbatim>\<open>processNode\<close>.
\<close>

datatype task = AddFinalizer_task Node | Retry_task string

fun containsFinalizer :: "string list \<Rightarrow> string \<Rightarrow> bool" where
  "containsFinalizer [] target = False"
| "containsFinalizer (f # fs) target = (if f = target then True else containsFinalizer fs target)"

text \<open>\<^verbatim>\<open>ensureFinalizer\<close> returns the goroutines it starts.\<close>

definition ensureFinalizer :: "Node \<Rightarrow> task list" where
  "ensureFinalizer node =
     (if DeletionTimestamp node \<noteq> None then []
      else if containsFinalizer (Finalizers node) FinalizerName then []
      else [AddFinalizer_task node])"

text \<open>
  \<^verbatim>\<open>json.Marshal\<close> of a map of string lists cannot fail, so the only error of
  \<^verbatim>\<open>addFinalizer\<close> and \<^verbatim>\<open>removeFinalizer\<close> is the one of the Patch call.
\<close>

definition addFinalizer ::
  "'w Client \<Rightarrow> Node \<Rightarrow> 'w \<Rightarrow> call list \<times> error option \<times> 'w" where
  "addFinalizer c node w =
     (let newFinalizers = ([] @ Finalizers node) @ [FinalizerName];
          p = MergePatch_finalizers newFinalizers
      in case Patch c (Name node) p w of
           (Inl err, w') \<Rightarrow>
             ([ApiPatch (Name node) p], Some (Wrapf ''failed to patch node: '' err), w')
         | (Inr _, w') \<Rightarrow> ([ApiPatch (Name node) p], None, w'))"

text \<open>The loop of \<^verbatim>\<open>removeFinalizer\<close> that builds \<^verbatim>\<open>newFinalizers\<close>.\<close>

fun removeFinalizer_loop :: "string list \<Rightarrow> string list \<Rightarrow> string list" where
  "removeFinalizer_loop newFinalizers [] = newFinalizers"
| "removeFinalizer_loop newFinalizers (f # fs) =
     (if f \<noteq> FinalizerName then removeFinalizer_loop (newFinalizers @ [f]) fs
      else removeFinalizer_loop newFinalizers fs)"

definition removeFinalizer ::
  "'w Client \<Rightarrow> Node \<Rightarrow> 'w \<Rightarrow> call list \<times> error option \<times> 'w" where
  "removeFinalizer c node w =
     (let newFinalizers = removeFinalizer_loop [] (Finalizers node);
          p = MergePatch_finalizers newFinalizers
      in case Patch c (Name node) p w of
           (Inl err, w') \<Rightarrow>
             ([ApiPatch (Name node) p], Some (Wrapf ''failed to patch node: '' err), w')
         | (Inr _, w') \<Rightarrow> ([ApiPatch (Name node) p], None, w'))"

text \<open>
  \<^verbatim>\<open>enqueueIfDeleting\<close>. \<^verbatim>\<open>LoadOrStore\<close> is one atomic test-and-insert. The send
  blocks while the channel holds \<^verbatim>\<open>DefaultWorkQueueSize\<close> names: \<open>None\<close> is the call
  that has stored the name and cannot complete yet.
\<close>

definition enqueueIfDeleting :: "'w Watcher \<Rightarrow> Node \<Rightarrow> 'w Watcher option" where
  "enqueueIfDeleting wt node =
     (if DeletionTimestamp node = None then Some wt
      else if \<not> containsFinalizer (Finalizers node) FinalizerName then Some wt
      else if Name node \<in> processing wt then Some wt
      else if length (workqueue wt) < DefaultWorkQueueSize
        then Some (wt\<lparr>processing := insert (Name node) (processing wt),
                       workqueue := workqueue wt @ [Name node]\<rparr>)
        else None)"

definition runCleanup ::
  "'w Watcher \<Rightarrow> Node \<Rightarrow> 'w \<Rightarrow> call list \<times> error option \<times> 'w" where
  "runCleanup wt node w =
     (case RunAll (pluginRegistry wt) node w of
        (cs, Some err, w') \<Rightarrow> (cs, Some (Wrapf ''plugin execution failed: '' err), w')
      | (cs, None, w') \<Rightarrow> (cs, None, w'))"

text \<open>
  The body of \<^verbatim>\<open>processNode\<close> up to its return: the calls made, the goroutines
  started and the outside state afterwards.
\<close>

definition processNode_body ::
  "'w Watcher \<Rightarrow> string \<Rightarrow> 'w \<Rightarrow> call list \<times> task list \<times> 'w" where
  "processNode_body wt nodeName w =
     (case Get (client wt) nodeName w of
        (Inl err, w1) \<Rightarrow> ([ApiGet nodeName], [], w1)
      | (Inr node, w1) \<Rightarrow>
          if DeletionTimestamp node = None
             \<or> \<not> containsFinalizer (Finalizers node) FinalizerName
          then ([ApiGet nodeName], [], w1)
          else if index_map (Annotations node) SkipCleanupAnnotation = ''true''
          then (case removeFinalizer (client wt) node w1 of
                  (cs, err, w2) \<Rightarrow> (ApiGet nodeName # cs, [], w2))
          else
            (case runCleanup wt node w1 of
               (cs, Some cleanupErr, w2) \<Rightarrow> (ApiGet nodeName # cs, [Retry_task nodeName], w2)
             | (cs, None, w2) \<Rightarrow>
                 (case Get (client wt) nodeName w2 of
                    (Inl err, w3) \<Rightarrow> (ApiGet nodeName # cs @ [ApiGet nodeName], [], w3)
                  | (Inr node', w3) \<Rightarrow>
                      (case removeFinalizer (client wt) node' w3 of
                         (cs', err, w4) \<Rightarrow>
                           (ApiGet nodeName # cs @ ApiGet nodeName # cs', [], w4)))))"

text \<open>\<^verbatim>\<open>processNode\<close>: the body, then the deferred \<^verbatim>\<open>w.processing.Delete(nodeName)\<close>.\<close>

definition processNode ::
  "'w Watcher \<Rightarrow> string \<Rightarrow> 'w \<Rightarrow> call list \<times> task list \<times> 'w Watcher \<times> 'w" where
  "processNode wt nodeName w =
     (case processNode_body wt nodeName w of
        (cs, ts, w') \<Rightarrow> (cs, ts, wt\<lparr>processing := processing wt - {nodeName}\<rparr>, w'))"

text \<open>
  The retry goroutine, in its two branches: the timer fires (delete, re-fetch and
  re-enqueue), or the context is done (delete only).
\<close>

definition retry_timer ::
  "'w Watcher \<Rightarrow> string \<Rightarrow> 'w \<Rightarrow> (call list \<times> 'w Watcher \<times> 'w) option" where
  "retry_timer wt nodeName w =
     (let wt1 = wt\<lparr>processing := processing wt - {nodeName}\<rparr>
      in case Get (client wt) nodeName w of
           (Inl err, w') \<Rightarrow> Some ([ApiGet nodeName], wt1, w')
         | (Inr n, w') \<Rightarrow>
             (case enqueueIfDeleting wt1 n of
                None \<Rightarrow> None
              | Some wt2 \<Rightarrow> Some ([ApiGet nodeName], wt2, w')))"

definition retry_cancelled :: "'w Watcher \<Rightarrow> string \<Rightarrow> 'w Watcher" where
  "retry_cancelled wt nodeName = wt\<lparr>processing := processing wt - {nodeName}\<rparr>"

section \<open>The running watcher\<close>

text \<open>
  The process as a whole: the watcher struct, the goroutines started and not yet run,
  the node name the worker loop of \<^verbatim>\<open>Run\<close> has received and is processing, the
  outside state, and the calls made so far.
\<close>

record 'w System =
  watcher :: "'w Watcher"
  goroutines :: "task list"
  active :: "string option"
  outside :: "'w"
  history :: "call list"

text \<open>
  What can happen next: the informer calls \<^verbatim>\<open>AddFunc\<close> or \<^verbatim>\<open>UpdateFunc\<close> with its
  copy of a node; the worker loop receives a name from the channel; \<^verbatim>\<open>processNode\<close>
  runs to its return; a started goroutine runs (for a retry: its timer fires, or the
  context is done).
\<close>

datatype event =
    AddFunc Node
  | UpdateFunc Node
  | Receive
  | ProcessNode_returns
  | AddFinalizer_runs nat
  | Timer_fires nat
  | Context_done nat

definition remove_nth :: "nat \<Rightarrow> 'a list \<Rightarrow> 'a list" where
  "remove_nth i xs = take i xs @ drop (Suc i) xs"

text \<open>One event; \<open>None\<close> when the event cannot happen in this state.\<close>

fun step :: "event \<Rightarrow> 'w System \<Rightarrow> 'w System option" where
  "step (AddFunc node) s = Some (s\<lparr>goroutines := goroutines s @ ensureFinalizer node\<rparr>)"
| "step (UpdateFunc node) s =
     (case enqueueIfDeleting (watcher s) node of
        None \<Rightarrow> None
      | Some wt \<Rightarrow> Some (s\<lparr>watcher := wt, goroutines := goroutines s @ ensureFinalizer node\<rparr>))"
| "step Receive s =
     (case active s of
        Some _ \<Rightarrow> None
      | None \<Rightarrow>
          (case workqueue (watcher s) of
             [] \<Rightarrow> None
           | nodeName # rest \<Rightarrow>
               Some (s\<lparr>watcher := (watcher s)\<lparr>workqueue := rest\<rparr>, active := Some nodeName\<rparr>)))"
| "step ProcessNode_returns s =
     (case active s of
        None \<Rightarrow> None
      | Some nodeName \<Rightarrow>
          (case processNode (watcher s) nodeName (outside s) of
             (cs, ts, wt, w) \<Rightarrow>
               Some (s\<lparr>watcher := wt, goroutines := goroutines s @ ts, active := None,
                       outside := w, history := history s @ cs\<rparr>)))"
| "step (AddFinalizer_runs i) s =
     (if i < length (goroutines s) then
        (case goroutines s ! i of
           AddFinalizer_task node \<Rightarrow>
             (case addFinalizer (client (watcher s)) node (outside s) of
                (cs, err, w) \<Rightarrow>
                  Some (s\<lparr>goroutines := remove_nth i (goroutines s), outside := w,
                          history := history s @ cs\<rparr>))
         | Retry_task nodeName \<Rightarrow> None)
      else None)"
| "step (Timer_fires i) s =
     (if i < length (goroutines s) then
        (case goroutines s ! i of
           Retry_task nodeName \<Rightarrow>
             (case retry_timer (watcher s) nodeName (outside s) of
                None \<Rightarrow> None
              | Some (cs, wt, w) \<Rightarrow>
                  Some (s\<lparr>watcher := wt, goroutines := remove_nth i (goroutines s),
                          outside := w, history := history s @ cs\<rparr>))
         | AddFinalizer_task node \<Rightarrow> None)
      else None)"
| "step (Context_done i) s =
     (if i < length (goroutines s) then
        (case goroutines s ! i of
           Retry_task nodeName \<Rightarrow>
             Some (s\<lparr>watcher := retry_cancelled (watcher s) nodeName,
                     goroutines := remove_nth i (goroutines s)\<rparr>)
         | AddFinalizer_task node \<Rightarrow> None)
      else None)"

fun run :: "event list \<Rightarrow> 'w System \<Rightarrow> 'w System option" where
  "run [] s = Some s"
| "run (e # es) s = (case step e s of None \<Rightarrow> None | Some s' \<Rightarrow> run es s')"

text \<open>\<^verbatim>\<open>New\<close>, and the process before the first event.\<close>

definition New :: "'w Client \<Rightarrow> 'w Registry \<Rightarrow> 'w Watcher" where
  "New c pluginRegistry' =
     \<lparr>client = c, workqueue = [], pluginRegistry = pluginRegistry', processing = {}\<rparr>"

definition start :: "'w Client \<Rightarrow> 'w Registry \<Rightarrow> 'w \<Rightarrow> 'w System" where
  "start c r w = \<lparr>watcher = New c r, goroutines = [], active = None, outside = w, history = []\<rparr>"

text \<open>
  The cleanup attempts for a node name that are queued or active, and whether the
  in-flight set says the same.
\<close>

definition attempts :: "'w System \<Rightarrow> string \<Rightarrow> nat" where
  "attempts s nodeName =
     count_list (workqueue (watcher s)) nodeName + (if active s = Some nodeName then 1 else 0)"

definition in_flight_exact :: "'w System \<Rightarrow> string \<Rightarrow> bool" where
  "in_flight_exact s nodeName = ((nodeName \<in> processing (watcher s)) = (0 < attempts s nodeName))"

section \<open>Concrete plugins and a concrete cluster\<close>

text \<open>
  \<^verbatim>\<open>LoggerPlugin.Cleanup\<close> prints the node and waits for the delay or for the context.
  It reads \<^verbatim>\<open>node.DeletionTimestamp.Time\<close> first: on a nil deletion time that is a nil
  dereference, and the panic is the error of the first branch. When the context is done
  before the delay is over it returns \<^verbatim>\<open>ctx.Err()\<close>; otherwise nil. It changes nothing
  outside. \<open>LoggerPlugin\<close> is the plugin under a context that is not done.
\<close>

definition LoggerPlugin_Cleanup :: "bool \<Rightarrow> Node \<Rightarrow> 'w \<Rightarrow> error option \<times> 'w" where
  "LoggerPlugin_Cleanup ctx_done node w =
     (case DeletionTimestamp node of
        None \<Rightarrow> (Some (Errorf ''panic: invalid memory address or nil pointer dereference''), w)
      | Some t \<Rightarrow> if ctx_done then (Some (Errorf ''context canceled''), w) else (None, w))"

definition LoggerPlugin :: "'w Plugin" where
  "LoggerPlugin = Plugin ''logger'' (\<lambda>node. True) (LoggerPlugin_Cleanup False)"

text \<open>
  Plugins to run the registry and the watcher on: one whose \<^verbatim>\<open>Cleanup\<close> always fails,
  one that does nothing, one that appends its name to a journal kept outside (so the
  journal shows which \<^verbatim>\<open>Cleanup\<close> ran, and in which order), and one that sets a label
  of its name on the node stored in the cluster. Then a cluster that is a table of nodes
  by name: Get reads the table, Patch replaces the finalizers of the stored node.
\<close>

definition FailingPlugin :: "string \<Rightarrow> 'w Plugin" where
  "FailingPlugin name = Plugin name (\<lambda>node. True) (\<lambda>node w. (Some (Errorf ''boom''), w))"

definition NamedPlugin :: "string \<Rightarrow> 'w Plugin" where
  "NamedPlugin name = Plugin name (\<lambda>node. True) (\<lambda>node w. (None, w))"

definition JournalPlugin :: "string \<Rightarrow> (string list) Plugin" where
  "JournalPlugin name = Plugin name (\<lambda>node. True) (\<lambda>node w. (None, w @ [name]))"

definition LabelPlugin :: "string \<Rightarrow> (string \<rightharpoonup> Node) Plugin" where
  "LabelPlugin name =
     Plugin name (\<lambda>node. True)
       (\<lambda>node t.
          (None,
           case t (Name node) of
             None \<Rightarrow> t
           | Some stored \<Rightarrow> t(Name node \<mapsto> stored\<lparr>Labels := (Labels stored)(name \<mapsto> ''done'')\<rparr>)))"

definition table_Get :: "string \<Rightarrow> (string \<rightharpoonup> Node) \<Rightarrow> (error + Node) \<times> (string \<rightharpoonup> Node)" where
  "table_Get name t =
     (case t name of
        None \<Rightarrow> (Inl (Errorf (''nodes '' @ name @ '' not found'')), t)
      | Some node \<Rightarrow> (Inr node, t))"

definition table_Patch ::
  "string \<Rightarrow> patch \<Rightarrow> (string \<rightharpoonup> Node) \<Rightarrow> (error + Node) \<times> (string \<rightharpoonup> Node)" where
  "table_Patch name p t =
     (case t name of
        None \<Rightarrow> (Inl (Errorf (''nodes '' @ name @ '' not found'')), t)
      | Some node \<Rightarrow>
          (case p of MergePatch_finalizers fs \<Rightarrow>
             (Inr (node\<lparr>Finalizers := fs\<rparr>), t(name \<mapsto> node\<lparr>Finalizers := fs\<rparr>))))"

definition table_client :: "(string \<rightharpoonup> Node) Client" where
  "table_client = \<lparr>Get = table_Get, Patch = table_Patch\<rparr>"

definition deleting_node :: "string \<Rightarrow> (string \<rightharpoonup> string) \<Rightarrow> Node" where
  "deleting_node name annotations =
     \<lparr>Name = name, DeletionTimestamp = Some 1, Finalizers = [''other'', FinalizerName],
      Annotations = annotations, Labels = Map.empty\<rparr>"

definition live_node :: "string \<Rightarrow> (string \<rightharpoonup> string) \<Rightarrow> Node" where
  "live_node name annotations =
     \<lparr>Name = name, DeletionTimestamp = None, Finalizers = [''other'', FinalizerName],
      Annotations = annotations, Labels = Map.empty\<rparr>"

text \<open>
  A watcher and a whole process over that cluster, the registry set up as \<^verbatim>\<open>main\<close>
  does from the plugins to register and the names to enable; the cluster holds one node.
\<close>

definition example_watcher :: "(string \<rightharpoonup> Node) Plugin list \<Rightarrow> string list \<Rightarrow> (string \<rightharpoonup> Node) Watcher" where
  "example_watcher ps names =
     New table_client (Enable_configured (Register_all NewRegistry ps) names)"

definition example_system :: "(string \<rightharpoonup> Node) Plugin list \<Rightarrow> string list \<Rightarrow> Node \<Rightarrow> (string \<rightharpoonup> Node) System" where
  "example_system ps names node =
     start table_client (Enable_configured (Register_all NewRegistry ps) names) [Name node \<mapsto> node]"

section \<open>Properties of the registry\<close>

lemma Enable_all_fields:
  "Enable_all r names = Inr r' \<Longrightarrow>
     plugins r' = plugins r \<and> pluginOrder r' = pluginOrder r @ names
     \<and> (\<forall>name \<in> set names. plugins r name \<noteq> None)"
proof (induction names arbitrary: r)
  case Nil
  then show ?case by simp
next
  case (Cons name names)
  from Cons.prems obtain r1 where e: "Enable r name = Inr r1" and rest: "Enable_all r1 names = Inr r'"
    by (auto split: sum.splits)
  from e have r1: "plugins r1 = plugins r" "pluginOrder r1 = pluginOrder r @ [name]" "plugins r name \<noteq> None"
    by (auto simp: Enable_def split: option.splits)
  from Cons.IH [OF rest] r1 show ?case by simp
qed

lemma Register_all_pluginOrder: "pluginOrder (Register_all r ps) = pluginOrder r"
  unfolding Register_all_def by (induction ps arbitrary: r) (auto simp: Register_def)

lemma RunAll_loop_plugins:
  "plugins r' = plugins r \<Longrightarrow> RunAll_loop r' node names w = RunAll_loop r node names w"
  by (induction names arbitrary: w) (auto split: option.splits prod.splits)

lemma RunAll_loop_append:
  "RunAll_loop r node xs w = (cs, None, w0) \<Longrightarrow> RunAll_loop r node ys w0 = (cs', e, w') \<Longrightarrow>
   RunAll_loop r node (xs @ ys) w = (cs @ cs', e, w')"
proof (induction xs arbitrary: w cs)
  case Nil
  then show ?case by simp
next
  case (Cons name xs)
  show ?case
  proof (cases "plugins r name")
    case None
    with Cons show ?thesis by simp
  next
    case (Some q)
    show ?thesis
    proof (cases "ShouldRun q node")
      case False
      with Some Cons show ?thesis by simp
    next
      case True
      obtain eo w1 where c: "Cleanup q node w = (eo, w1)" by (cases "Cleanup q node w")
      with Cons.prems(1) Some True obtain cs1 where
        eo: "eo = None" and l: "RunAll_loop r node xs w1 = (cs1, None, w0)"
        and cs: "cs = PluginCleanup name # cs1"
        by (auto split: option.splits prod.splits)
      from Cons.IH [OF l Cons.prems(2)] Some True c eo cs show ?thesis by simp
    qed
  qed
qed

text \<open>
  C1. Start from a new registry, register any plugins in any order, then enable \<open>a\<close>,
  \<open>b\<close>, \<open>c\<close> in that order. If the three apply to the node, \<^verbatim>\<open>RunAll\<close> runs their
  \<^verbatim>\<open>Cleanup\<close> in exactly that order: that of \<open>a\<close> on the outside state it was given,
  that of \<open>b\<close> on the state \<open>a\<close> left, that of \<open>c\<close> on the state \<open>b\<close> left, and it
  returns the state \<open>c\<close> left. (When one of them fails, it stops there, as C3 says.)
\<close>

theorem RunAll_enable_order:
  assumes "Enable_all (Register_all NewRegistry ps) [a, b, c] = Inr r"
      and "plugins r a = Some pa" and "plugins r b = Some pb" and "plugins r c = Some pc"
      and "ShouldRun pa node" and "ShouldRun pb node" and "ShouldRun pc node"
      and "Cleanup pa node w = (ea, w1)"
      and "Cleanup pb node w1 = (eb, w2)"
      and "Cleanup pc node w2 = (ec, w3)"
  shows "RunAll r node w =
    (case ea of
       Some e \<Rightarrow> ([PluginCleanup a], Some (Wrapf (''plugin '' @ a @ '' failed: '') e), w1)
     | None \<Rightarrow>
        (case eb of
           Some e \<Rightarrow>
             ([PluginCleanup a, PluginCleanup b],
              Some (Wrapf (''plugin '' @ b @ '' failed: '') e), w2)
         | None \<Rightarrow>
             ([PluginCleanup a, PluginCleanup b, PluginCleanup c],
              map_option (Wrapf (''plugin '' @ c @ '' failed: '')) ec, w3)))"
proof -
  from Enable_all_fields [OF assms(1)]
  have "pluginOrder r = pluginOrder (Register_all NewRegistry ps) @ [a, b, c]" by simp
  then have o: "pluginOrder r = [a, b, c]"
    by (simp add: Register_all_pluginOrder NewRegistry_def)
  show ?thesis
    using assms(2-) by (simp add: RunAll_def o split: option.splits)
qed

theorem RunAll_enable_order_witness:
  "(case Enable_all (Register_all NewRegistry [JournalPlugin ''c'', JournalPlugin ''a'', JournalPlugin ''b''])
           [''a'', ''b'', ''c''] of
      Inl e \<Rightarrow> False
    | Inr r \<Rightarrow>
        RunAll r (deleting_node ''n1'' Map.empty) []
          = ([PluginCleanup ''a'', PluginCleanup ''b'', PluginCleanup ''c''], None,
             [''a'', ''b'', ''c'']))"
proof -
  define R where "R = Register_all NewRegistry [JournalPlugin ''c'', JournalPlugin ''a'', JournalPlugin ''b'']"
  define node where "node = deleting_node ''n1'' Map.empty"
  have reg: "plugins R ''a'' = Some (JournalPlugin ''a'')" "plugins R ''b'' = Some (JournalPlugin ''b'')"
    "plugins R ''c'' = Some (JournalPlugin ''c'')"
    by (simp_all add: R_def Register_all_def Register_def NewRegistry_def JournalPlugin_def)
  obtain r where e: "Enable_all R [''a'', ''b'', ''c''] = Inr r"
    by (simp add: Enable_def reg)
  from Enable_all_fields [OF e] have pr: "plugins r = plugins R" by simp
  have p: "plugins r ''a'' = Some (JournalPlugin ''a'')" "plugins r ''b'' = Some (JournalPlugin ''b'')"
    "plugins r ''c'' = Some (JournalPlugin ''c'')"
    by (simp_all add: pr reg)
  have s: "ShouldRun (JournalPlugin ''a'') node" "ShouldRun (JournalPlugin ''b'') node"
    "ShouldRun (JournalPlugin ''c'') node"
    by (simp_all add: JournalPlugin_def)
  have c: "Cleanup (JournalPlugin ''a'') node [] = (None, [''a''])"
    "Cleanup (JournalPlugin ''b'') node [''a''] = (None, [''a'', ''b''])"
    "Cleanup (JournalPlugin ''c'') node [''a'', ''b''] = (None, [''a'', ''b'', ''c''])"
    by (simp_all add: JournalPlugin_def)
  from RunAll_enable_order [OF e [unfolded R_def] p s c]
  have "RunAll r node [] = ([PluginCleanup ''a'', PluginCleanup ''b'', PluginCleanup ''c''], None,
             [''a'', ''b'', ''c''])"
    by simp
  with e show ?thesis by (simp add: R_def node_def)
qed

lemma RunAll_loop_stops:
  "RunAll_loop r node pre w = (cs, None, w1) \<Longrightarrow> plugins r b = Some p \<Longrightarrow> ShouldRun p node \<Longrightarrow>
   Cleanup p node w1 = (Some e, w2) \<Longrightarrow>
   RunAll_loop r node (pre @ b # post) w =
     (cs @ [PluginCleanup b], Some (Wrapf (''plugin '' @ b @ '' failed: '') e), w2)"
proof (induction pre arbitrary: w cs)
  case Nil
  then show ?case by simp
next
  case (Cons name pre)
  show ?case
  proof (cases "plugins r name")
    case None
    with Cons show ?thesis by simp
  next
    case (Some q)
    show ?thesis
    proof (cases "ShouldRun q node")
      case False
      with Some Cons show ?thesis by simp
    next
      case True
      obtain eo w' where c: "Cleanup q node w = (eo, w')" by (cases "Cleanup q node w")
      with Cons.prems(1) Some True obtain cs' where
        eo: "eo = None" and l: "RunAll_loop r node pre w' = (cs', None, w1)" and cs: "cs = PluginCleanup name # cs'"
        by (auto split: option.splits prod.splits)
      from Cons.IH [OF l Cons.prems(2-4)] Some True c eo cs show ?thesis by simp
    qed
  qed
qed

lemma RunAll_loop_error:
  "RunAll_loop r node names w = (cs, Some err, w2) \<Longrightarrow>
   \<exists>pre b post p cs' w1 e. names = pre @ b # post \<and> RunAll_loop r node pre w = (cs', None, w1)
      \<and> plugins r b = Some p \<and> ShouldRun p node \<and> Cleanup p node w1 = (Some e, w2)"
proof (induction names arbitrary: w cs)
  case Nil
  then show ?case by simp
next
  case (Cons name names)
  have skip: ?case
    if l: "RunAll_loop r node names w = (cs, Some err, w2)"
      and s: "RunAll_loop r node [name] w = ([], None, w)"
  proof -
    from Cons.IH [OF l] obtain pre b post p cs' w1 e where
      h: "names = pre @ b # post" "RunAll_loop r node pre w = (cs', None, w1)"
         "plugins r b = Some p" "ShouldRun p node" "Cleanup p node w1 = (Some e, w2)"
      by blast
    from s h(2) have "RunAll_loop r node (name # pre) w = (cs', None, w1)"
      by (auto split: option.splits if_splits prod.splits)
    with h show ?thesis
      by (metis append_Cons)
  qed
  show ?case
  proof (cases "plugins r name")
    case None
    with Cons.prems skip show ?thesis by simp
  next
    case (Some q)
    show ?thesis
    proof (cases "ShouldRun q node")
      case False
      with Some Cons.prems skip show ?thesis by simp
    next
      case True
      obtain eo w' where c: "Cleanup q node w = (eo, w')" by (cases "Cleanup q node w")
      show ?thesis
      proof (cases eo)
        case (Some e)
        with c Cons.prems \<open>plugins r name = Some q\<close> True
        have "w' = w2" by simp
        with c Some \<open>plugins r name = Some q\<close> True
        have "name # names = [] @ name # names \<and> RunAll_loop r node [] w = ([], None, w)
              \<and> plugins r name = Some q \<and> ShouldRun q node \<and> Cleanup q node w = (Some e, w2)"
          by simp
        then show ?thesis by blast
      next
        case None
        with c Cons.prems \<open>plugins r name = Some q\<close> True obtain cs0 where
          l: "RunAll_loop r node names w' = (cs0, Some err, w2)"
          by (auto split: prod.splits)
        from Cons.IH [OF l] obtain pre b post p cs' w1 e where
          h: "names = pre @ b # post" "RunAll_loop r node pre w' = (cs', None, w1)"
             "plugins r b = Some p" "ShouldRun p node" "Cleanup p node w1 = (Some e, w2)"
          by blast
        from h(2) c None \<open>plugins r name = Some q\<close> True
        have "RunAll_loop r node (name # pre) w = (PluginCleanup name # cs', None, w1)"
          by simp
        with h show ?thesis by (metis append_Cons)
      qed
    qed
  qed
qed

text \<open>
  C3. When an applicable action \<open>b\<close> of the order fails, after the actions before it ran
  without error, \<^verbatim>\<open>RunAll\<close> returns at once: the call of \<open>b\<close> is the last call made
  (nothing after \<open>b\<close> in the order is called), and the error returned has the message
  \<^verbatim>\<open>plugin b failed: \<close> followed by the message of the error of \<open>b\<close>, which it
  wraps. And \<^verbatim>\<open>RunAll\<close> returns an error only if an applicable action failed: when
  none fails, it returns nil.
\<close>

theorem RunAll_fail_fast:
  "(pluginOrder r = pre @ b # post \<and> RunAll_loop r node pre w = (cs, None, w1)
      \<and> plugins r b = Some p \<and> ShouldRun p node \<and> Cleanup p node w1 = (Some e, w2)
    \<longrightarrow> (\<exists>err. RunAll r node w = (cs @ [PluginCleanup b], Some err, w2)
           \<and> Error err = ''plugin '' @ b @ '' failed: '' @ Error e \<and> Unwrap err = Some e))
   \<and> (fst (snd (RunAll r node w)) \<noteq> None
    \<longrightarrow> (\<exists>pre b post p cs w1 e w2. pluginOrder r = pre @ b # post
           \<and> RunAll_loop r node pre w = (cs, None, w1)
           \<and> plugins r b = Some p \<and> ShouldRun p node \<and> Cleanup p node w1 = (Some e, w2)))"
proof (intro conjI impI)
  assume a: "pluginOrder r = pre @ b # post \<and> RunAll_loop r node pre w = (cs, None, w1)
      \<and> plugins r b = Some p \<and> ShouldRun p node \<and> Cleanup p node w1 = (Some e, w2)"
  then have "RunAll r node w =
     (cs @ [PluginCleanup b], Some (Wrapf (''plugin '' @ b @ '' failed: '') e), w2)"
    using RunAll_loop_stops [of r node pre w cs w1 b p e w2 post] by (simp add: RunAll_def)
  then show "\<exists>err. RunAll r node w = (cs @ [PluginCleanup b], Some err, w2)
           \<and> Error err = ''plugin '' @ b @ '' failed: '' @ Error e \<and> Unwrap err = Some e"
    by simp
next
  assume "fst (snd (RunAll r node w)) \<noteq> None"
  then obtain cs err w2 where "RunAll_loop r node (pluginOrder r) w = (cs, Some err, w2)"
    by (cases "RunAll_loop r node (pluginOrder r) w") (auto simp: RunAll_def)
  from RunAll_loop_error [OF this]
  show "\<exists>pre b post p cs w1 e w2. pluginOrder r = pre @ b # post
           \<and> RunAll_loop r node pre w = (cs, None, w1)
           \<and> plugins r b = Some p \<and> ShouldRun p node \<and> Cleanup p node w1 = (Some e, w2)"
    by blast
qed

theorem RunAll_fail_fast_witness:
  "(case Enable_all (Register_all NewRegistry [NamedPlugin ''a'', FailingPlugin ''b'', NamedPlugin ''c''])
           [''a'', ''b'', ''c''] of
      Inl e \<Rightarrow> False
    | Inr r \<Rightarrow>
        fst (RunAll r (deleting_node ''n1'' Map.empty) (0::nat))
          = [PluginCleanup ''a'', PluginCleanup ''b'']
        \<and> map_option Error (fst (snd (RunAll r (deleting_node ''n1'' Map.empty) (0::nat))))
          = Some ''plugin b failed: boom''
        \<and> map_option Unwrap (fst (snd (RunAll r (deleting_node ''n1'' Map.empty) (0::nat))))
          = Some (Some (Errorf ''boom'')))"
proof -
  define R :: "nat Registry"
    where "R = Register_all NewRegistry [NamedPlugin ''a'', FailingPlugin ''b'', NamedPlugin ''c'']"
  define node where "node = deleting_node ''n1'' Map.empty"
  have reg: "plugins R ''a'' = Some (NamedPlugin ''a'')" "plugins R ''b'' = Some (FailingPlugin ''b'')"
    "plugins R ''c'' = Some (NamedPlugin ''c'')" "pluginOrder R = []"
    by (simp_all add: R_def Register_all_def Register_def NewRegistry_def NamedPlugin_def
        FailingPlugin_def)
  obtain r where e: "Enable_all R [''a'', ''b'', ''c''] = Inr r"
    by (simp add: Enable_def reg)
  from Enable_all_fields [OF e] have pr: "plugins r = plugins R" "pluginOrder r = [''a''] @ ''b'' # [''c'']"
    by (simp_all add: reg)
  have pre: "RunAll_loop r node [''a''] 0 = ([PluginCleanup ''a''], None, 0)"
    by (simp add: pr reg NamedPlugin_def)
  have b: "plugins r ''b'' = Some (FailingPlugin ''b'')" "ShouldRun (FailingPlugin ''b'' :: nat Plugin) node"
    "Cleanup (FailingPlugin ''b'') node (0::nat) = (Some (Errorf ''boom''), 0)"
    by (simp_all add: pr reg FailingPlugin_def)
  from RunAll_fail_fast [of r "[''a'']" "''b''" "[''c'']" node 0 "[PluginCleanup ''a'']" 0
      "FailingPlugin ''b''" "Errorf ''boom''" 0] pr(2) pre b
  obtain err where "RunAll r node 0 = ([PluginCleanup ''a''] @ [PluginCleanup ''b''], Some err, 0)"
    "Error err = ''plugin '' @ ''b'' @ '' failed: '' @ Error (Errorf ''boom'')"
    "Unwrap err = Some (Errorf ''boom'')"
    by blast
  with e show ?thesis by (simp add: R_def node_def)
qed

text \<open>
  C9. \<^verbatim>\<open>Enable\<close> is not idempotent: two calls for a registered name are both accepted
  and leave the name twice at the end of the recorded order. A \<^verbatim>\<open>RunAll\<close> after them
  runs the \<^verbatim>\<open>Cleanup\<close> of that action twice, the second time on the outside state the
  first left (when the action applies to the node, and the actions enabled before and its
  own first run succeed).
\<close>

theorem Enable_twice:
  assumes "plugins r name = Some p"
  shows "\<exists>r1 r2. Enable r name = Inr r1 \<and> Enable r1 name = Inr r2
           \<and> pluginOrder r2 = pluginOrder r @ [name, name]
           \<and> (\<forall>cs w0 w1 e2 w2.
                 RunAll r node w = (cs, None, w0) \<and> ShouldRun p node
                 \<and> Cleanup p node w0 = (None, w1) \<and> Cleanup p node w1 = (e2, w2)
                 \<longrightarrow> RunAll r2 node w =
                       (cs @ [PluginCleanup name, PluginCleanup name],
                        map_option (Wrapf (''plugin '' @ name @ '' failed: '')) e2, w2))"
proof -
  define r1 where "r1 = r\<lparr>enabled := (enabled r)(name \<mapsto> True), pluginOrder := pluginOrder r @ [name]\<rparr>"
  define r2 where "r2 = r1\<lparr>enabled := (enabled r1)(name \<mapsto> True), pluginOrder := pluginOrder r1 @ [name]\<rparr>"
  have e1: "Enable r name = Inr r1" using assms by (simp add: Enable_def r1_def)
  have p1: "plugins r1 name = Some p" using assms by (simp add: r1_def)
  have e2: "Enable r1 name = Inr r2" using p1 by (simp add: Enable_def r2_def)
  have o: "pluginOrder r2 = pluginOrder r @ [name, name]" by (simp add: r2_def r1_def)
  have pl: "plugins r2 = plugins r" by (simp add: r2_def r1_def)
  have run: "RunAll r2 node w =
       (cs @ [PluginCleanup name, PluginCleanup name],
        map_option (Wrapf (''plugin '' @ name @ '' failed: '')) e2', w2)"
    if h: "RunAll r node w = (cs, None, w0)" "ShouldRun p node"
      "Cleanup p node w0 = (None, w1)" "Cleanup p node w1 = (e2', w2)"
    for cs w0 w1 e2' w2
  proof -
    have twice: "RunAll_loop r node [name, name] w0 =
        ([PluginCleanup name, PluginCleanup name],
         map_option (Wrapf (''plugin '' @ name @ '' failed: '')) e2', w2)"
      using assms h(2-4) by (cases e2') simp_all
    from h(1) have "RunAll_loop r node (pluginOrder r) w = (cs, None, w0)"
      by (simp add: RunAll_def)
    from RunAll_loop_append [OF this twice]
    show ?thesis
      by (simp add: RunAll_def o RunAll_loop_plugins [OF pl])
  qed
  show ?thesis
    by (intro exI [of _ r1] exI [of _ r2] conjI e1 e2 o) (use run in blast)
qed

theorem Enable_twice_witness:
  "plugins (Register NewRegistry (JournalPlugin ''p'')) ''p'' = Some (JournalPlugin ''p'')
   \<and> (case Enable (Register NewRegistry (JournalPlugin ''p'')) ''p'' of
        Inl e \<Rightarrow> False
      | Inr r1 \<Rightarrow>
          (case Enable r1 ''p'' of
             Inl e \<Rightarrow> False
           | Inr r2 \<Rightarrow>
               pluginOrder r2 = [''p'', ''p'']
               \<and> RunAll r2 (deleting_node ''n1'' Map.empty) []
                   = ([PluginCleanup ''p'', PluginCleanup ''p''], None, [''p'', ''p''])))"
proof -
  define R where "R = Register NewRegistry (JournalPlugin ''p'')"
  define node where "node = deleting_node ''n1'' Map.empty"
  have reg: "plugins R ''p'' = Some (JournalPlugin ''p'')" "pluginOrder R = []"
    by (simp_all add: R_def Register_def NewRegistry_def JournalPlugin_def)
  have h: "RunAll R node [] = ([], None, []) \<and> ShouldRun (JournalPlugin ''p'') node
           \<and> Cleanup (JournalPlugin ''p'') node [] = (None, [''p''])
           \<and> Cleanup (JournalPlugin ''p'') node [''p''] = (None, [''p'', ''p''])"
    by (simp add: RunAll_def reg JournalPlugin_def)
  from Enable_twice [OF reg(1), of node "[]"] obtain r1 r2 where
    e: "Enable R ''p'' = Inr r1" "Enable r1 ''p'' = Inr r2" "pluginOrder r2 = pluginOrder R @ [''p'', ''p'']"
    and run: "\<forall>cs w0 w1 e2 w2.
                 RunAll R node [] = (cs, None, w0) \<and> ShouldRun (JournalPlugin ''p'') node
                 \<and> Cleanup (JournalPlugin ''p'') node w0 = (None, w1)
                 \<and> Cleanup (JournalPlugin ''p'') node w1 = (e2, w2)
                 \<longrightarrow> RunAll r2 node [] =
                       (cs @ [PluginCleanup ''p'', PluginCleanup ''p''],
                        map_option (Wrapf (''plugin '' @ ''p'' @ '' failed: '')) e2, w2)"
    by blast
  from run h have "RunAll r2 node [] = ([] @ [PluginCleanup ''p'', PluginCleanup ''p''],
       map_option (Wrapf (''plugin '' @ ''p'' @ '' failed: '')) None, [''p'', ''p''])"
    by blast
  with e reg show ?thesis by (simp add: R_def [symmetric] node_def [symmetric])
qed

lemma RunAll_Disable: "RunAll (Disable r name) node w = RunAll r node w"
proof -
  have "RunAll_loop (Disable r name) node names w = RunAll_loop r node names w" for names
    by (induction names arbitrary: w) (auto simp: Disable_def split: option.splits prod.splits)
  then show ?thesis by (simp add: RunAll_def Disable_def)
qed

lemma RunAll_range_skips_disabled:
  "\<not> is_enabled r name \<Longrightarrow> PluginCleanup name \<notin> set (fst (RunAll_range_loop r node keys w))"
proof (induction keys arbitrary: w)
  case Nil
  then show ?case by simp
next
  case (Cons k keys)
  have "PluginCleanup name \<notin> set cs" if "RunAll_range_loop r node keys w' = (cs, e, w'')"
    for w' cs e w''
    using Cons.IH [OF Cons.prems, of w'] that by simp
  with Cons show ?case
    by (auto split: option.splits prod.splits)
qed

text \<open>
  C2 fails on the code. Register the logger plugin, enable it, disable it: the enabled
  map then reads false for it, its name is still in the recorded order, and
  \<^verbatim>\<open>RunAll\<close> calls its \<^verbatim>\<open>Cleanup\<close> all the same. (The earlier loop did skip
  it: \<open>RunAll_range_skips_disabled\<close>.)
\<close>

theorem RunAll_runs_disabled_plugin:
  "(case Enable (Register NewRegistry (LoggerPlugin :: nat Plugin)) ''logger'' of
      Inl e \<Rightarrow> False
    | Inr r \<Rightarrow>
        is_enabled (Disable r ''logger'') ''logger'' = False
        \<and> pluginOrder (Disable r ''logger'') = [''logger'']
        \<and> fst (RunAll (Disable r ''logger'') (deleting_node ''n1'' Map.empty) 0)
            = [PluginCleanup ''logger''])"
  by (simp add: Enable_def Register_def NewRegistry_def LoggerPlugin_def LoggerPlugin_Cleanup_def
      deleting_node_def Disable_def is_enabled_def RunAll_def)

section \<open>Properties of the watcher\<close>

lemma containsFinalizer_set: "containsFinalizer fs target = (target \<in> set fs)"
  by (induction fs) auto

lemma removeFinalizer_loop_filter:
  "removeFinalizer_loop acc fs = acc @ filter (\<lambda>f. f \<noteq> FinalizerName) fs"
  by (induction fs arbitrary: acc) auto

lemma removeFinalizer_calls:
  "fst (removeFinalizer c node w) =
     [ApiPatch (Name node) (MergePatch_finalizers (filter (\<lambda>f. f \<noteq> FinalizerName) (Finalizers node)))]"
  by (simp add: removeFinalizer_def removeFinalizer_loop_filter Let_def split: prod.splits sum.splits)



text \<open>
  C7. For a node that already carries the protective marker, \<^verbatim>\<open>ensureFinalizer\<close>
  starts no \<^verbatim>\<open>addFinalizer\<close> goroutine, so no patch is built and no error can arise:
  the add event leaves the whole process as it was.
\<close>

theorem ensureFinalizer_idempotent:
  assumes "FinalizerName \<in> set (Finalizers node)"
  shows "ensureFinalizer node = [] \<and> step (AddFunc node) s = Some s"
  using assms by (simp add: ensureFinalizer_def containsFinalizer_set)

theorem ensureFinalizer_idempotent_witness:
  "FinalizerName \<in> set (Finalizers (live_node ''n1'' Map.empty))
   \<and> ensureFinalizer (live_node ''n1'' Map.empty) = []
   \<and> goroutines (the (step (AddFunc (live_node ''n1'' Map.empty))
        (start table_client NewRegistry [''n1'' \<mapsto> live_node ''n1'' Map.empty]))) = []
   \<and> history (the (step (AddFunc (live_node ''n1'' Map.empty))
        (start table_client NewRegistry [''n1'' \<mapsto> live_node ''n1'' Map.empty]))) = []"
proof -
  have h: "FinalizerName \<in> set (Finalizers (live_node ''n1'' Map.empty))"
    by (simp add: live_node_def)
  from ensureFinalizer_idempotent [OF h, of "start table_client NewRegistry [''n1'' \<mapsto> live_node ''n1'' Map.empty]"] h
  show ?thesis by (simp add: start_def)
qed

text \<open>
  C8. When the re-fetched node has a nil deletion time or no longer carries the
  protective marker, \<^verbatim>\<open>processNode\<close> makes no call but the Get, starts no goroutine,
  and changes nothing of the watcher but the in-flight set, from which the name is
  removed; the outside state is the one the Get left.
\<close>

theorem processNode_abandons:
  assumes "Get (client wt) nodeName w = (Inr node, w1)"
      and "DeletionTimestamp node = None \<or> FinalizerName \<notin> set (Finalizers node)"
  shows "processNode wt nodeName w
           = ([ApiGet nodeName], [], wt\<lparr>processing := processing wt - {nodeName}\<rparr>, w1)"
  using assms by (auto simp: processNode_def processNode_body_def containsFinalizer_set)

theorem processNode_abandons_witness:
  "Get table_client ''n1'' [''n1'' \<mapsto> live_node ''n1'' Map.empty] = (Inr (live_node ''n1'' Map.empty), [''n1'' \<mapsto> live_node ''n1'' Map.empty])
   \<and> DeletionTimestamp (live_node ''n1'' Map.empty) = None
   \<and> processNode ((New table_client NewRegistry)\<lparr>processing := {''n1'', ''n2''}\<rparr>) ''n1'' [''n1'' \<mapsto> live_node ''n1'' Map.empty]
       = ([ApiGet ''n1''], [], (New table_client NewRegistry)\<lparr>processing := {''n2''}\<rparr>,
          [''n1'' \<mapsto> live_node ''n1'' Map.empty])"
proof -
  have g: "Get (client ((New table_client NewRegistry)\<lparr>processing := {''n1'', ''n2''}\<rparr>)) ''n1'' [''n1'' \<mapsto> live_node ''n1'' Map.empty]
          = (Inr (live_node ''n1'' Map.empty), [''n1'' \<mapsto> live_node ''n1'' Map.empty])"
    by (simp add: New_def table_client_def table_Get_def)
  have d: "DeletionTimestamp (live_node ''n1'' Map.empty) = None \<or> FinalizerName \<notin> set (Finalizers (live_node ''n1'' Map.empty))"
    by (simp add: live_node_def)
  have s: "{''n1'', ''n2''} - {''n1''} = {''n2''}" by auto
  from processNode_abandons [OF g d] g show ?thesis
    by (simp add: s New_def live_node_def)
qed

lemma RunAll_loop_only_cleanup:
  "filter is_cleanup (fst (RunAll_loop r node names w)) = fst (RunAll_loop r node names w)"
proof (induction names arbitrary: w)
  case Nil
  then show ?case by simp
next
  case (Cons name names)
  have t: "filter is_cleanup cs = cs" if "RunAll_loop r node names w' = (cs, e, w'')" for w' cs e w''
    using Cons.IH [of w'] that by simp
  have c: "is_cleanup (PluginCleanup name)" by (simp add: is_cleanup_def)
  show ?case
    using t c Cons.IH by (auto split: option.splits prod.splits)
qed

lemma removeFinalizer_no_cleanup: "filter is_cleanup (fst (removeFinalizer c node w)) = []"
  by (simp add: removeFinalizer_calls is_cleanup_def)

lemma removeFinalizer_result:
  "removeFinalizer c node w =
     ([ApiPatch (Name node) (MergePatch_finalizers (filter (\<lambda>f. f \<noteq> FinalizerName) (Finalizers node)))],
      (case fst (Patch c (Name node)
                  (MergePatch_finalizers (filter (\<lambda>f. f \<noteq> FinalizerName) (Finalizers node))) w) of
         Inl err \<Rightarrow> Some (Wrapf ''failed to patch node: '' err)
       | Inr n \<Rightarrow> None),
      snd (Patch c (Name node)
             (MergePatch_finalizers (filter (\<lambda>f. f \<noteq> FinalizerName) (Finalizers node))) w))"
  by (simp add: removeFinalizer_def removeFinalizer_loop_filter Let_def split: prod.splits sum.splits)

text \<open>
  C5. The skip directive is the annotation with the value \<^verbatim>\<open>true\<close>, and
  \<^verbatim>\<open>processNode\<close> looks at it right after the re-validation, before anything is run.
  For every re-fetched node that carries it, no \<^verbatim>\<open>Cleanup\<close> of any action is called.
  When the node passed the re-validation, the only call after the Get is the patch that
  removes the protective marker, no retry is started, and the outside state is the one
  that patch left; when it did not, \<^verbatim>\<open>processNode\<close> returns after the Get.
\<close>

theorem skip_annotation_bypasses_cleanup:
  assumes "Get (client wt) nodeName w = (Inr node, w1)"
      and "Annotations node SkipCleanupAnnotation = Some ''true''"
  shows "processNode wt nodeName w =
           (if DeletionTimestamp node = None \<or> FinalizerName \<notin> set (Finalizers node)
            then ([ApiGet nodeName], [], wt\<lparr>processing := processing wt - {nodeName}\<rparr>, w1)
            else ([ApiGet nodeName,
                   ApiPatch (Name node)
                     (MergePatch_finalizers (filter (\<lambda>f. f \<noteq> FinalizerName) (Finalizers node)))],
                  [], wt\<lparr>processing := processing wt - {nodeName}\<rparr>,
                  snd (Patch (client wt) (Name node)
                         (MergePatch_finalizers (filter (\<lambda>f. f \<noteq> FinalizerName) (Finalizers node)))
                         w1)))
         \<and> filter is_cleanup (fst (processNode wt nodeName w)) = []"
proof -
  have eq: "processNode wt nodeName w =
           (if DeletionTimestamp node = None \<or> FinalizerName \<notin> set (Finalizers node)
            then ([ApiGet nodeName], [], wt\<lparr>processing := processing wt - {nodeName}\<rparr>, w1)
            else ([ApiGet nodeName,
                   ApiPatch (Name node)
                     (MergePatch_finalizers (filter (\<lambda>f. f \<noteq> FinalizerName) (Finalizers node)))],
                  [], wt\<lparr>processing := processing wt - {nodeName}\<rparr>,
                  snd (Patch (client wt) (Name node)
                         (MergePatch_finalizers (filter (\<lambda>f. f \<noteq> FinalizerName) (Finalizers node)))
                         w1)))"
    using assms
    by (auto simp: processNode_def processNode_body_def containsFinalizer_set index_map_def
        removeFinalizer_result)
  then show ?thesis by (simp add: is_cleanup_def)
qed

theorem skip_annotation_bypasses_cleanup_witness:
  "processNode (example_watcher [LabelPlugin ''mark''] [''mark'']) ''n1''
          [''n1'' \<mapsto> deleting_node ''n1'' [SkipCleanupAnnotation \<mapsto> ''true'']]
     = ([ApiGet ''n1'', ApiPatch ''n1'' (MergePatch_finalizers [''other''])], [],
        (example_watcher [LabelPlugin ''mark''] [''mark''])\<lparr>processing := {}\<rparr>,
        [''n1'' \<mapsto> (deleting_node ''n1'' [SkipCleanupAnnotation \<mapsto> ''true''])
                      \<lparr>Finalizers := [''other'']\<rparr>])"
proof -
  define node where "node = deleting_node ''n1'' [SkipCleanupAnnotation \<mapsto> ''true'']"
  define W where "W = example_watcher [LabelPlugin ''mark''] [''mark'']"
  have g: "Get (client W) ''n1'' [''n1'' \<mapsto> node] = (Inr node, [''n1'' \<mapsto> node])"
    by (simp add: W_def example_watcher_def New_def table_client_def table_Get_def)
  have a: "Annotations node SkipCleanupAnnotation = Some ''true''"
    by (simp add: node_def deleting_node_def)
  have d: "DeletionTimestamp node \<noteq> None" "FinalizerName \<in> set (Finalizers node)"
    by (simp_all add: node_def deleting_node_def)
  have f: "filter (\<lambda>f. f \<noteq> FinalizerName) (Finalizers node) = [''other'']" "Name node = ''n1''"
    by (simp_all add: node_def deleting_node_def FinalizerName_def)
  have p: "snd (Patch (client W) ''n1'' (MergePatch_finalizers [''other'']) [''n1'' \<mapsto> node])
             = [''n1'' \<mapsto> node\<lparr>Finalizers := [''other'']\<rparr>]"
    by (simp add: W_def example_watcher_def New_def table_client_def table_Patch_def)
  have e: "processing W - {''n1''} = {}"
    by (simp add: W_def example_watcher_def New_def)
  from skip_annotation_bypasses_cleanup [OF g a] d
  show ?thesis
    by (simp add: f p e node_def [symmetric] W_def [symmetric])
qed

text \<open>
  C10. The bypass is taken only for the value \<^verbatim>\<open>true\<close>. When the re-fetched node is
  pending deletion with the protective marker and its skip-cleanup annotation is anything
  else (another value, the empty string, or no annotation), \<^verbatim>\<open>processNode\<close> runs
  \<^verbatim>\<open>RunAll\<close> on that node from the state the Get left. If \<^verbatim>\<open>RunAll\<close> fails, a retry
  is started and nothing is patched; if not, the node is fetched again from the state
  \<^verbatim>\<open>RunAll\<close> left and the marker is removed. The \<^verbatim>\<open>Cleanup\<close> calls made are those
  of \<^verbatim>\<open>RunAll\<close>.
\<close>

theorem skip_only_when_true:
  assumes "Get (client wt) nodeName w = (Inr node, w1)"
      and "DeletionTimestamp node \<noteq> None"
      and "FinalizerName \<in> set (Finalizers node)"
      and "Annotations node SkipCleanupAnnotation \<noteq> Some ''true''"
      and "RunAll (pluginRegistry wt) node w1 = (cs, eo, w2)"
  shows "processNode wt nodeName w =
           (case eo of
              Some e \<Rightarrow>
                (ApiGet nodeName # cs, [Retry_task nodeName],
                 wt\<lparr>processing := processing wt - {nodeName}\<rparr>, w2)
            | None \<Rightarrow>
                (case Get (client wt) nodeName w2 of
                   (Inl err, w3) \<Rightarrow>
                     (ApiGet nodeName # cs @ [ApiGet nodeName], [],
                      wt\<lparr>processing := processing wt - {nodeName}\<rparr>, w3)
                 | (Inr node', w3) \<Rightarrow>
                     (ApiGet nodeName # cs @ ApiGet nodeName # fst (removeFinalizer (client wt) node' w3),
                      [], wt\<lparr>processing := processing wt - {nodeName}\<rparr>,
                      snd (snd (removeFinalizer (client wt) node' w3)))))
         \<and> filter is_cleanup (fst (processNode wt nodeName w)) = cs"
proof -
  have skip: "index_map (Annotations node) SkipCleanupAnnotation \<noteq> ''true''"
    using assms(4) by (cases "Annotations node SkipCleanupAnnotation") (simp_all add: index_map_def)
  from assms(5) have "cs = fst (RunAll_loop (pluginRegistry wt) node (pluginOrder (pluginRegistry wt)) w1)"
    by (simp add: RunAll_def)
  then have fc: "filter is_cleanup cs = cs"
    by (simp add: RunAll_loop_only_cleanup)
  have rc: "runCleanup wt node w1 =
      (cs, map_option (Wrapf ''plugin execution failed: '') eo, w2)"
    using assms(5) by (cases eo) (simp_all add: runCleanup_def)
  have eq: "processNode wt nodeName w =
           (case eo of
              Some e \<Rightarrow>
                (ApiGet nodeName # cs, [Retry_task nodeName],
                 wt\<lparr>processing := processing wt - {nodeName}\<rparr>, w2)
            | None \<Rightarrow>
                (case Get (client wt) nodeName w2 of
                   (Inl err, w3) \<Rightarrow>
                     (ApiGet nodeName # cs @ [ApiGet nodeName], [],
                      wt\<lparr>processing := processing wt - {nodeName}\<rparr>, w3)
                 | (Inr node', w3) \<Rightarrow>
                     (ApiGet nodeName # cs @ ApiGet nodeName # fst (removeFinalizer (client wt) node' w3),
                      [], wt\<lparr>processing := processing wt - {nodeName}\<rparr>,
                      snd (snd (removeFinalizer (client wt) node' w3)))))"
    using assms(1-3) skip rc
    by (auto simp: processNode_def processNode_body_def containsFinalizer_set
        split: option.splits prod.splits sum.splits)
  have "filter is_cleanup (fst (processNode wt nodeName w)) = cs"
    unfolding eq using fc
    by (auto simp: is_cleanup_def removeFinalizer_no_cleanup split: option.splits prod.splits sum.splits)
  with eq show ?thesis by simp
qed

theorem skip_only_when_true_witness:
  "processNode (example_watcher [LabelPlugin ''mark''] [''mark'']) ''n1''
       [''n1'' \<mapsto> deleting_node ''n1'' [SkipCleanupAnnotation \<mapsto> ''false'']]
     = ([ApiGet ''n1'', PluginCleanup ''mark'', ApiGet ''n1'',
         ApiPatch ''n1'' (MergePatch_finalizers [''other''])], [],
        (example_watcher [LabelPlugin ''mark''] [''mark''])\<lparr>processing := {}\<rparr>,
        [''n1'' \<mapsto> \<lparr>Name = ''n1'', DeletionTimestamp = Some 1, Finalizers = [''other''],
                     Annotations = [SkipCleanupAnnotation \<mapsto> ''false''],
                     Labels = [''mark'' \<mapsto> ''done'']\<rparr>])
   \<and> processNode (example_watcher [LabelPlugin ''mark''] [''mark'']) ''n1''
       [''n1'' \<mapsto> deleting_node ''n1'' Map.empty]
     = ([ApiGet ''n1'', PluginCleanup ''mark'', ApiGet ''n1'',
         ApiPatch ''n1'' (MergePatch_finalizers [''other''])], [],
        (example_watcher [LabelPlugin ''mark''] [''mark''])\<lparr>processing := {}\<rparr>,
        [''n1'' \<mapsto> \<lparr>Name = ''n1'', DeletionTimestamp = Some 1, Finalizers = [''other''],
                     Annotations = Map.empty, Labels = [''mark'' \<mapsto> ''done'']\<rparr>])"
proof -
  define W where "W = example_watcher [LabelPlugin ''mark''] [''mark'']"
  have main: "processNode W ''n1'' [''n1'' \<mapsto> deleting_node ''n1'' an]
     = ([ApiGet ''n1'', PluginCleanup ''mark'', ApiGet ''n1'',
         ApiPatch ''n1'' (MergePatch_finalizers [''other''])], [],
        W\<lparr>processing := {}\<rparr>,
        [''n1'' \<mapsto> \<lparr>Name = ''n1'', DeletionTimestamp = Some 1, Finalizers = [''other''],
                     Annotations = an, Labels = [''mark'' \<mapsto> ''done'']\<rparr>])"
    if an: "an SkipCleanupAnnotation \<noteq> Some ''true''" for an
  proof -
    define node where "node = deleting_node ''n1'' an"
    define marked where "marked = node\<lparr>Labels := [''mark'' \<mapsto> ''done'']\<rparr>"
    have g: "Get (client W) ''n1'' [''n1'' \<mapsto> node] = (Inr node, [''n1'' \<mapsto> node])"
      by (simp add: W_def example_watcher_def New_def table_client_def table_Get_def)
    have d: "DeletionTimestamp node \<noteq> None" "FinalizerName \<in> set (Finalizers node)"
      "Annotations node SkipCleanupAnnotation \<noteq> Some ''true''"
      using an by (simp_all add: node_def deleting_node_def)
    have r: "RunAll (pluginRegistry W) node [''n1'' \<mapsto> node]
               = ([PluginCleanup ''mark''], None, [''n1'' \<mapsto> marked])"
      by (simp add: W_def example_watcher_def New_def RunAll_def Register_all_def Register_def
          NewRegistry_def Enable_def LabelPlugin_def marked_def node_def deleting_node_def)
    have g2: "Get (client W) ''n1'' [''n1'' \<mapsto> marked] = (Inr marked, [''n1'' \<mapsto> marked])"
      by (simp add: W_def example_watcher_def New_def table_client_def table_Get_def)
    have rf: "removeFinalizer (client W) marked [''n1'' \<mapsto> marked]
               = ([ApiPatch ''n1'' (MergePatch_finalizers [''other''])], None,
                  [''n1'' \<mapsto> marked\<lparr>Finalizers := [''other'']\<rparr>])"
      by (simp add: removeFinalizer_result W_def example_watcher_def New_def table_client_def
          table_Patch_def marked_def node_def deleting_node_def FinalizerName_def)
    have e: "processing W - {''n1''} = {}"
      by (simp add: W_def example_watcher_def New_def)
    have m: "marked\<lparr>Finalizers := [''other'']\<rparr>
              = \<lparr>Name = ''n1'', DeletionTimestamp = Some 1, Finalizers = [''other''],
                 Annotations = an, Labels = [''mark'' \<mapsto> ''done'']\<rparr>"
      by (simp add: marked_def node_def deleting_node_def)
    from skip_only_when_true [OF g d r] show ?thesis
      by (simp add: g2 rf e m node_def [symmetric])
  qed
  have a: "[SkipCleanupAnnotation \<mapsto> ''false''] SkipCleanupAnnotation \<noteq> Some ''true''"
    "(Map.empty :: string \<rightharpoonup> string) SkipCleanupAnnotation \<noteq> Some ''true''"
    by simp_all
  from main [of "[SkipCleanupAnnotation \<mapsto> ''false'']", OF a(1)] main [of Map.empty, OF a(2)]
  show ?thesis
    by (simp add: W_def)
qed

text \<open>
  C4 fails on the code. One node pending deletion, one action that fails. The node is
  enqueued and received, its cleanup fails, and \<^verbatim>\<open>processNode\<close> returns: the deferred
  delete empties the in-flight set while the retry goroutine waits. An update event
  enqueues the node again and the worker receives it. Then the timer of the retry fires:
  it deletes the entry of the running attempt and enqueues the node once more, so one
  attempt is active and one queued for the same name. When the running attempt returns,
  its deferred delete leaves the name queued and not in the in-flight set.
\<close>

theorem in_flight_set_race:
  "(case run [UpdateFunc (deleting_node ''n1'' Map.empty), Receive, ProcessNode_returns,
              UpdateFunc (deleting_node ''n1'' Map.empty), Receive, Timer_fires 0]
         (example_system [FailingPlugin ''fail''] [''fail''] (deleting_node ''n1'' Map.empty)) of
      None \<Rightarrow> False
    | Some s \<Rightarrow>
        active s = Some ''n1'' \<and> workqueue (watcher s) = [''n1'']
        \<and> processing (watcher s) = {''n1''} \<and> attempts s ''n1'' = 2)
   \<and> (case run [UpdateFunc (deleting_node ''n1'' Map.empty), Receive, ProcessNode_returns,
              UpdateFunc (deleting_node ''n1'' Map.empty), Receive, Timer_fires 0,
              ProcessNode_returns]
         (example_system [FailingPlugin ''fail''] [''fail''] (deleting_node ''n1'' Map.empty)) of
      None \<Rightarrow> False
    | Some s \<Rightarrow>
        active s = None \<and> workqueue (watcher s) = [''n1'']
        \<and> processing (watcher s) = {} \<and> in_flight_exact s ''n1'' = False)"
  by (simp add: example_system_def start_def New_def Register_all_def Register_def NewRegistry_def
      Enable_def FailingPlugin_def deleting_node_def enqueueIfDeleting_def ensureFinalizer_def
      FinalizerName_def DefaultWorkQueueSize_def processNode_def processNode_body_def
      table_client_def table_Get_def table_Patch_def index_map_def SkipCleanupAnnotation_def
      runCleanup_def RunAll_def retry_timer_def remove_nth_def attempts_def in_flight_exact_def
      Let_def)

end
